theory Spec2Isabelle
  imports Complex_Main
begin

section \<open>Numbers of the ledger\<close>

text \<open>
  Every quantity, price, rate and cost of \<open>rebuildLots\<close> (src/Code.js) is a JavaScript
  number. The model keeps the special values that the code can produce and that decide
  its control flow, and idealises the rest: a finite number is an exact rational
  (\<open>Fin\<close>), so rounding of IEEE doubles and the sign of zero are not modelled.
  Division never raises in JavaScript: \<open>x / 0\<close> is an infinity, \<open>0 / 0\<close> is \<open>NaN\<close>,
  and every comparison with \<open>NaN\<close> is false.
\<close>

datatype jsnum = Fin rat | PInf | NInf | NaN

fun jneg :: "jsnum \<Rightarrow> jsnum" where
  "jneg (Fin a) = Fin (- a)"
| "jneg PInf = NInf"
| "jneg NInf = PInf"
| "jneg NaN = NaN"

fun jadd :: "jsnum \<Rightarrow> jsnum \<Rightarrow> jsnum" where
  "jadd (Fin a) (Fin b) = Fin (a + b)"
| "jadd (Fin a) PInf = PInf"
| "jadd (Fin a) NInf = NInf"
| "jadd PInf (Fin b) = PInf"
| "jadd PInf PInf = PInf"
| "jadd PInf NInf = NaN"
| "jadd NInf (Fin b) = NInf"
| "jadd NInf NInf = NInf"
| "jadd NInf PInf = NaN"
| "jadd NaN y = NaN"
| "jadd x NaN = NaN"

definition jsub :: "jsnum \<Rightarrow> jsnum \<Rightarrow> jsnum" where
  "jsub x y = jadd x (jneg y)"

text \<open>The sign of an infinity times or over a finite number; zero counts as \<open>+0\<close>.\<close>

definition inf_signed :: "bool \<Rightarrow> jsnum" where
  "inf_signed pos = (if pos then PInf else NInf)"

fun jmul :: "jsnum \<Rightarrow> jsnum \<Rightarrow> jsnum" where
  "jmul (Fin a) (Fin b) = Fin (a * b)"
| "jmul (Fin a) PInf = (if a = 0 then NaN else inf_signed (0 < a))"
| "jmul (Fin a) NInf = (if a = 0 then NaN else inf_signed (a < 0))"
| "jmul PInf (Fin b) = (if b = 0 then NaN else inf_signed (0 < b))"
| "jmul NInf (Fin b) = (if b = 0 then NaN else inf_signed (b < 0))"
| "jmul PInf PInf = PInf"
| "jmul PInf NInf = NInf"
| "jmul NInf PInf = NInf"
| "jmul NInf NInf = PInf"
| "jmul NaN y = NaN"
| "jmul x NaN = NaN"

fun jdiv :: "jsnum \<Rightarrow> jsnum \<Rightarrow> jsnum" where
  "jdiv (Fin a) (Fin b) =
     (if b = 0 then (if a = 0 then NaN else inf_signed (0 < a)) else Fin (a / b))"
| "jdiv (Fin a) PInf = Fin 0"
| "jdiv (Fin a) NInf = Fin 0"
| "jdiv PInf (Fin b) = inf_signed (0 \<le> b)"
| "jdiv NInf (Fin b) = inf_signed (b < 0)"
| "jdiv PInf PInf = NaN"
| "jdiv PInf NInf = NaN"
| "jdiv NInf PInf = NaN"
| "jdiv NInf NInf = NaN"
| "jdiv NaN y = NaN"
| "jdiv x NaN = NaN"

text \<open>\<open>Math.min\<close> and \<open>Math.floor\<close>.\<close>

fun jmin :: "jsnum \<Rightarrow> jsnum \<Rightarrow> jsnum" where
  "jmin (Fin a) (Fin b) = Fin (min a b)"
| "jmin (Fin a) PInf = Fin a"
| "jmin PInf (Fin b) = Fin b"
| "jmin PInf PInf = PInf"
| "jmin NaN y = NaN"
| "jmin x NaN = NaN"
| "jmin NInf y = NInf"
| "jmin x NInf = NInf"

fun jfloor :: "jsnum \<Rightarrow> jsnum" where
  "jfloor (Fin a) = Fin (of_int \<lfloor>a\<rfloor>)"
| "jfloor x = x"

text \<open>The comparisons the code makes: \<open>x > 0\<close>, \<open>x <= 0\<close>, \<open>x < y\<close>.\<close>

fun jgt0 :: "jsnum \<Rightarrow> bool" where
  "jgt0 (Fin a) = (0 < a)"
| "jgt0 PInf = True"
| "jgt0 NInf = False"
| "jgt0 NaN = False"

fun jle0 :: "jsnum \<Rightarrow> bool" where
  "jle0 (Fin a) = (a \<le> 0)"
| "jle0 PInf = False"
| "jle0 NInf = True"
| "jle0 NaN = False"

fun jlt :: "jsnum \<Rightarrow> jsnum \<Rightarrow> bool" where
  "jlt (Fin a) (Fin b) = (a < b)"
| "jlt (Fin a) PInf = True"
| "jlt NInf (Fin b) = True"
| "jlt NInf PInf = True"
| "jlt x y = False"

text \<open>\<open>x || d\<close> on numbers: \<open>0\<close> and \<open>NaN\<close> are falsy.\<close>

fun truthy :: "jsnum \<Rightarrow> bool" where
  "truthy (Fin a) = (a \<noteq> 0)"
| "truthy NaN = False"
| "truthy x = True"

definition jor :: "jsnum \<Rightarrow> jsnum \<Rightarrow> jsnum" where
  "jor x d = (if truthy x then x else d)"

text \<open>
  A cell of an input table, as \<open>Number(...)\<close> sees it: \<open>Numeric r\<close> is a number (or
  text that parses to one; an empty cell reads as \<open>0\<close>), \<open>NonNumeric\<close> is anything
  \<open>Number\<close> maps to \<open>NaN\<close> (other text, a missing column).
\<close>

datatype cell = Numeric rat | NonNumeric

fun Number :: "cell \<Rightarrow> jsnum" where
  "Number (Numeric r) = Fin r"
| "Number NonNumeric = NaN"

section \<open>Tables\<close>

datatype etype = BUY | SELL | SPLIT | BONUS | MERGER | CLASS_REORG | GIFT | TRANSFER | OTHER

text \<open>
  A row of \<open>Trades\<close> or of \<open>LotActions\<close>: the code reads both through the same variable
  \<open>d\<close>, so one record carries the columns of both tables (\<open>d_Side\<close>, \<open>d_TradeDate\<close>
  of a trade; \<open>d_ActionType\<close>, \<open>d_ActionDate\<close> of an action). Dates are valid dates,
  as their time value. Identifiers are strings.
\<close>

record row =
  d_TradeId :: string
  d_TradeDate :: int
  d_Side :: etype
  d_ActionDate :: int
  d_ActionType :: etype
  d_OwnerId :: string
  d_BrokerId :: string
  d_AccountId :: string
  d_SecurityId :: string
  d_Quantity :: cell
  d_Price :: cell
  d_FXRateToINR :: cell
  d_OwnerFromId :: string
  d_OwnerToId :: string
  d_BrokerToId :: string
  d_AccountToId :: string
  d_SecurityToId :: string
  d_SplitNumerator :: cell
  d_SplitDenominator :: cell

record security =
  s_SecurityId :: string
  s_AssetId :: string

record event =
  Type :: etype
  Date :: int
  Data :: row

record lot =
  LotId :: nat
  OwnerId :: string
  SecurityId :: string
  AssetId :: string
  BuyDate :: int
  OpenQty :: jsnum
  CostNative :: jsnum
  CostPriceNative :: jsnum
  CostINR :: jsnum
  BuyFXRate :: jsnum
  BrokerId :: string
  AccountId :: string

record consume =
  c_ConsumeId :: nat
  c_TradeId :: string
  c_OwnerId :: string
  c_SecurityId :: string
  c_AssetId :: string
  c_LotId :: nat
  c_BuyDate :: int
  c_SellDate :: int
  c_Quantity :: jsnum
  c_CostNative :: jsnum
  c_CostPriceNative :: jsnum
  c_CostINR :: jsnum
  c_CostFXRate :: jsnum
  c_SalePriceNative :: jsnum
  c_SaleFXRate :: jsnum
  c_ProceedsNative :: jsnum
  c_ProceedsINR :: jsnum

section \<open>Sorting\<close>

text \<open>
  \<open>Array.prototype.sort\<close> with a comparator is stable, and a comparator result of
  \<open>NaN\<close> counts as \<open>0\<close>. It is modelled as the stable insertion sort that moves an
  element only past elements it compares greater than.
\<close>

fun insertBy :: "('a \<Rightarrow> 'a \<Rightarrow> jsnum) \<Rightarrow> 'a \<Rightarrow> 'a list \<Rightarrow> 'a list" where
  "insertBy cmp x [] = [x]"
| "insertBy cmp x (y # ys) = (if jgt0 (cmp x y) then y # insertBy cmp x ys else x # y # ys)"

definition sortBy :: "('a \<Rightarrow> 'a \<Rightarrow> jsnum) \<Rightarrow> 'a list \<Rightarrow> 'a list" where
  "sortBy cmp xs = foldr (insertBy cmp) xs []"

text \<open>
  The priority table \<open>order\<close> of the event sort; a type that is not a key of the
  table reads as \<open>undefined\<close>, and a difference with \<open>undefined\<close> is \<open>NaN\<close>.
\<close>

fun order :: "etype \<Rightarrow> int option" where
  "order BUY = Some 1"
| "order SPLIT = Some 2"
| "order BONUS = Some 2"
| "order MERGER = Some 3"
| "order SELL = Some 4"
| "order GIFT = Some 5"
| "order TRANSFER = Some 6"
| "order CLASS_REORG = None"
| "order OTHER = None"

definition orderDiff :: "etype \<Rightarrow> etype \<Rightarrow> jsnum" where
  "orderDiff a b =
     (case (order a, order b) of
        (Some x, Some y) \<Rightarrow> Fin (of_int (x - y))
      | _ \<Rightarrow> NaN)"

definition eventCmp :: "event \<Rightarrow> event \<Rightarrow> jsnum" where
  "eventCmp a b = jor (Fin (of_int (Date a - Date b))) (orderDiff (Type a) (Type b))"

definition tradeEvent :: "row \<Rightarrow> event" where
  "tradeEvent t = \<lparr>Type = d_Side t, Date = d_TradeDate t, Data = t\<rparr>"

definition actionEvent :: "row \<Rightarrow> event" where
  "actionEvent a = \<lparr>Type = d_ActionType a, Date = d_ActionDate a, Data = a\<rparr>"

definition sortedEvents :: "row list \<Rightarrow> row list \<Rightarrow> event list" where
  "sortedEvents trades actions = sortBy eventCmp (map tradeEvent trades @ map actionEvent actions)"

section \<open>The lot store and the rebuild engine\<close>

text \<open>
  \<open>lots\<close> is a JavaScript array of objects that the event rules mutate in place, also
  through the arrays that \<open>filter\<close> and \<open>sort\<close> return (they hold the same objects).
  In the model the array is the store and a lot's position in it is its address: a
  query returns positions, a mutation is a list update at a position, \<open>push\<close> appends
  and so never moves a lot. \<open>LOT_n\<close> and \<open>C_n\<close> are represented by \<open>n\<close>.
\<close>

record state =
  lots :: "lot list"
  consumes :: "consume list"
  lotSeq :: nat
  consumeSeq :: nat

text \<open>\<open>secs[id].AssetId\<close> throws a \<open>TypeError\<close> when \<open>secs[id]\<close> is \<open>undefined\<close>.\<close>

datatype error = TypeError

definition mkSecs :: "security list \<Rightarrow> (string \<rightharpoonup> security)" where
  "mkSecs table = map_of (rev (map (\<lambda>s. (s_SecurityId s, s)) table))"

definition assetIdOf :: "(string \<rightharpoonup> security) \<Rightarrow> string \<Rightarrow> error + string" where
  "assetIdOf secs sid = (case secs sid of None \<Rightarrow> Inl TypeError | Some s \<Rightarrow> Inr (s_AssetId s))"

definition isOpenFor :: "lot list \<Rightarrow> string \<Rightarrow> string \<Rightarrow> nat \<Rightarrow> bool" where
  "isOpenFor ls owner securityId i =
     (OwnerId (ls ! i) = owner \<and> SecurityId (ls ! i) = securityId \<and> jgt0 (OpenQty (ls ! i)))"

definition buyDateCmp :: "lot list \<Rightarrow> nat \<Rightarrow> nat \<Rightarrow> jsnum" where
  "buyDateCmp ls a b = Fin (of_int (BuyDate (ls ! a) - BuyDate (ls ! b)))"

definition openLotsBySecurity :: "lot list \<Rightarrow> string \<Rightarrow> string \<Rightarrow> nat list" where
  "openLotsBySecurity ls owner securityId =
     sortBy (buyDateCmp ls) (filter (isOpenFor ls owner securityId) [0..<length ls])"

subsection \<open>BUY\<close>

definition applyBUY :: "(string \<rightharpoonup> security) \<Rightarrow> row \<Rightarrow> state \<Rightarrow> error + state" where
  "applyBUY secs d st =
     (let qty = Number (d_Quantity d);
          price = Number (d_Price d);
          fx = Number (d_FXRateToINR d)
      in case assetIdOf secs (d_SecurityId d) of
           Inl err \<Rightarrow> Inl err
         | Inr assetId \<Rightarrow>
             Inr (st\<lparr>lots := lots st @
                    [\<lparr>LotId = lotSeq st, OwnerId = d_OwnerId d, SecurityId = d_SecurityId d,
                      AssetId = assetId, BuyDate = d_TradeDate d, OpenQty = qty,
                      CostNative = jmul qty price, CostPriceNative = price,
                      CostINR = jmul (jmul qty price) fx, BuyFXRate = fx,
                      BrokerId = d_BrokerId d, AccountId = d_AccountId d\<rparr>],
                    lotSeq := lotSeq st + 1\<rparr>))"

subsection \<open>CLASS_REORG\<close>

definition reorgStep :: "string \<Rightarrow> string \<Rightarrow> jsnum \<Rightarrow> jsnum \<Rightarrow> jsnum \<Rightarrow> state \<Rightarrow> nat \<Rightarrow> state" where
  "reorgStep toSec toAssetId qtyRatio costRatioNew costRatioOriginal st i =
     (let lot = lots st ! i;
          newQty = jmul (OpenQty lot) qtyRatio;
          newCostNative = jmul (CostNative lot) costRatioNew;
          newCostINR = jmul (CostINR lot) costRatioNew;
          pushed = lots st @
            [\<lparr>LotId = lotSeq st, OwnerId = OwnerId lot, SecurityId = toSec,
              AssetId = toAssetId, BuyDate = BuyDate lot, OpenQty = newQty,
              CostNative = newCostNative,
              CostPriceNative = (if jgt0 newQty then jdiv newCostNative newQty else Fin 0),
              CostINR = newCostINR, BuyFXRate = BuyFXRate lot,
              BrokerId = BrokerId lot, AccountId = AccountId lot\<rparr>];
          costNative' = jmul (CostNative lot) costRatioOriginal
      in st\<lparr>lots := pushed[i := lot\<lparr>CostNative := costNative',
                                     CostINR := jmul (CostINR lot) costRatioOriginal,
                                     CostPriceNative :=
                                       (if jgt0 (OpenQty lot) then jdiv costNative' (OpenQty lot)
                                        else Fin 0)\<rparr>],
            lotSeq := lotSeq st + 1\<rparr>)"

definition reorgSources :: "lot list \<Rightarrow> string \<Rightarrow> string \<Rightarrow> nat list" where
  "reorgSources ls fromAssetId fromSec =
     filter (\<lambda>i. AssetId (ls ! i) = fromAssetId \<and> SecurityId (ls ! i) = fromSec \<and>
                 jgt0 (OpenQty (ls ! i))) [0..<length ls]"

definition reorgQtyRatio :: "row \<Rightarrow> jsnum" where
  "reorgQtyRatio d =
     jdiv (jor (Number (d_SplitNumerator d)) (Fin 1)) (jor (Number (d_SplitDenominator d)) (Fin 1))"

definition applyCLASS_REORG :: "(string \<rightharpoonup> security) \<Rightarrow> row \<Rightarrow> state \<Rightarrow> error + state" where
  "applyCLASS_REORG secs d st =
     (let fromSec = d_SecurityId d; toSec = d_SecurityToId d
      in case assetIdOf secs fromSec of
           Inl err \<Rightarrow> Inl err
         | Inr fromAssetId \<Rightarrow>
            (case assetIdOf secs toSec of
               Inl err \<Rightarrow> Inl err
             | Inr toAssetId \<Rightarrow>
                 (let qtyRatio = reorgQtyRatio d;
                      costRatioNew = jdiv qtyRatio (jadd (Fin 1) qtyRatio);
                      costRatioOriginal = jsub (Fin 1) costRatioNew;
                      sourceLots = reorgSources (lots st) fromAssetId fromSec
                  in Inr (foldl (reorgStep toSec toAssetId qtyRatio costRatioNew costRatioOriginal)
                            st sourceLots))))"

subsection \<open>SELL (FIFO)\<close>

definition sellStep :: "row \<Rightarrow> string \<Rightarrow> jsnum \<Rightarrow> jsnum \<Rightarrow> nat \<Rightarrow> jsnum \<Rightarrow> state \<Rightarrow> state" where
  "sellStep d assetId salePrice saleFX i qty st =
     (let lot = lots st ! i;
          used = jmin (OpenQty lot) qty;
          frac = jdiv used (OpenQty lot);
          costNativeUsed = jmul (CostNative lot) frac;
          costINRUsed = jmul (CostINR lot) frac;
          proceedsNative = jmul used salePrice;
          proceedsINR = jmul proceedsNative saleFX
      in st\<lparr>consumes := consumes st @
               [\<lparr>c_ConsumeId = consumeSeq st, c_TradeId = d_TradeId d, c_OwnerId = d_OwnerId d,
                 c_SecurityId = d_SecurityId d, c_AssetId = assetId, c_LotId = LotId lot,
                 c_BuyDate = BuyDate lot, c_SellDate = d_TradeDate d, c_Quantity = used,
                 c_CostNative = costNativeUsed, c_CostPriceNative = CostPriceNative lot,
                 c_CostINR = costINRUsed, c_CostFXRate = BuyFXRate lot,
                 c_SalePriceNative = salePrice, c_SaleFXRate = saleFX,
                 c_ProceedsNative = proceedsNative, c_ProceedsINR = proceedsINR\<rparr>],
            consumeSeq := consumeSeq st + 1,
            lots := (lots st)[i := lot\<lparr>OpenQty := jsub (OpenQty lot) used,
                                         CostNative := jsub (CostNative lot) costNativeUsed,
                                         CostINR := jsub (CostINR lot) costINRUsed\<rparr>]\<rparr>)"

fun sellLoop :: "row \<Rightarrow> string \<Rightarrow> jsnum \<Rightarrow> jsnum \<Rightarrow> nat list \<Rightarrow> jsnum \<Rightarrow> state \<Rightarrow> state" where
  "sellLoop d assetId salePrice saleFX [] qty st = st"
| "sellLoop d assetId salePrice saleFX (i # rest) qty st =
     (if jle0 qty then st
      else sellLoop d assetId salePrice saleFX rest
             (jsub qty (jmin (OpenQty (lots st ! i)) qty))
             (sellStep d assetId salePrice saleFX i qty st))"

definition applySELL :: "(string \<rightharpoonup> security) \<Rightarrow> row \<Rightarrow> state \<Rightarrow> error + state" where
  "applySELL secs d st =
     (let qty = Number (d_Quantity d);
          salePrice = Number (d_Price d);
          saleFX = Number (d_FXRateToINR d)
      in case assetIdOf secs (d_SecurityId d) of
           Inl err \<Rightarrow> Inl err
         | Inr assetId \<Rightarrow>
             Inr (sellLoop d assetId salePrice saleFX
                    (openLotsBySecurity (lots st) (d_OwnerId d) (d_SecurityId d)) qty st))"

subsection \<open>SPLIT\<close>

definition splitLot :: "string \<Rightarrow> jsnum \<Rightarrow> lot \<Rightarrow> lot" where
  "splitLot securityId factor l =
     (if SecurityId l = securityId \<and> jgt0 (OpenQty l)
      then l\<lparr>OpenQty := jmul (OpenQty l) factor,
             CostPriceNative := jdiv (CostPriceNative l) factor\<rparr>
      else l)"

definition applySPLIT :: "row \<Rightarrow> state \<Rightarrow> state" where
  "applySPLIT d st =
     (let factor = jdiv (Number (d_SplitNumerator d)) (Number (d_SplitDenominator d))
      in st\<lparr>lots := map (splitLot (d_SecurityId d) factor) (lots st)\<rparr>)"

subsection \<open>BONUS\<close>

definition bonusStep :: "row \<Rightarrow> string \<Rightarrow> jsnum \<Rightarrow> state \<Rightarrow> lot \<Rightarrow> state" where
  "bonusStep d assetId bonusRatio st l =
     (let bonusQty = jmul (OpenQty l) bonusRatio
      in if jgt0 bonusQty
         then st\<lparr>lots := lots st @
                    [\<lparr>LotId = lotSeq st, OwnerId = OwnerId l, SecurityId = SecurityId l,
                      AssetId = assetId, BuyDate = d_ActionDate d, OpenQty = bonusQty,
                      CostNative = Fin 0, CostPriceNative = Fin 0, CostINR = Fin 0,
                      BuyFXRate = BuyFXRate l, BrokerId = BrokerId l,
                      AccountId = AccountId l\<rparr>],
                 lotSeq := lotSeq st + 1\<rparr>
         else st)"

definition applyBONUS :: "(string \<rightharpoonup> security) \<Rightarrow> row \<Rightarrow> state \<Rightarrow> error + state" where
  "applyBONUS secs d st =
     (let factor = jdiv (Number (d_SplitNumerator d)) (Number (d_SplitDenominator d));
          bonusRatio = jsub factor (Fin 1)
      in case assetIdOf secs (d_SecurityId d) of
           Inl err \<Rightarrow> Inl err
         | Inr assetId \<Rightarrow>
             (let lotsToProcess =
                    filter (\<lambda>l. SecurityId l = d_SecurityId d \<and> jgt0 (OpenQty l)) (lots st)
              in Inr (foldl (bonusStep d assetId bonusRatio) st lotsToProcess)))"

subsection \<open>MERGER\<close>

definition mergeLot :: "string \<Rightarrow> string \<Rightarrow> string \<Rightarrow> jsnum \<Rightarrow> lot \<Rightarrow> lot" where
  "mergeLot fromSec toSec toAssetId ratio l =
     (if SecurityId l = fromSec \<and> jgt0 (OpenQty l)
      then (let newQty = jfloor (jmul (OpenQty l) ratio)
            in l\<lparr>SecurityId := toSec, AssetId := toAssetId,
                 CostPriceNative := jdiv (CostNative l) newQty,
                 OpenQty := newQty\<rparr>)
      else l)"

definition applyMERGER :: "(string \<rightharpoonup> security) \<Rightarrow> row \<Rightarrow> state \<Rightarrow> error + state" where
  "applyMERGER secs d st =
     (let ratio = jdiv (Number (d_SplitNumerator d)) (Number (d_SplitDenominator d));
          fromSec = d_SecurityId d;
          toSec = d_SecurityToId d
      in case assetIdOf secs toSec of
           Inl err \<Rightarrow> Inl err
         | Inr toAssetId \<Rightarrow>
             Inr (st\<lparr>lots := map (mergeLot fromSec toSec toAssetId ratio) (lots st)\<rparr>))"

subsection \<open>GIFT\<close>

definition giftStep :: "row \<Rightarrow> string \<Rightarrow> nat \<Rightarrow> jsnum \<Rightarrow> state \<Rightarrow> state" where
  "giftStep d assetId i qty st =
     (let lot = lots st ! i;
          move = jmin (OpenQty lot) qty;
          frac = jdiv move (OpenQty lot);
          costNativeMove = jmul (CostNative lot) frac;
          costINRMove = jmul (CostINR lot) frac;
          pushed = lots st @
            [\<lparr>LotId = lotSeq st, OwnerId = d_OwnerToId d, SecurityId = SecurityId lot,
              AssetId = assetId, BuyDate = BuyDate lot, OpenQty = move,
              CostNative = costNativeMove, CostPriceNative = CostPriceNative lot,
              CostINR = costINRMove, BuyFXRate = BuyFXRate lot,
              BrokerId = d_BrokerToId d, AccountId = d_AccountToId d\<rparr>]
      in st\<lparr>lots := pushed[i := lot\<lparr>OpenQty := jsub (OpenQty lot) move,
                                     CostNative := jsub (CostNative lot) costNativeMove,
                                     CostINR := jsub (CostINR lot) costINRMove\<rparr>],
            lotSeq := lotSeq st + 1\<rparr>)"

fun giftLoop :: "row \<Rightarrow> string \<Rightarrow> nat list \<Rightarrow> jsnum \<Rightarrow> state \<Rightarrow> state" where
  "giftLoop d assetId [] qty st = st"
| "giftLoop d assetId (i # rest) qty st =
     (if jle0 qty then st
      else giftLoop d assetId rest
             (jsub qty (jmin (OpenQty (lots st ! i)) qty))
             (giftStep d assetId i qty st))"

definition applyGIFT :: "(string \<rightharpoonup> security) \<Rightarrow> row \<Rightarrow> state \<Rightarrow> error + state" where
  "applyGIFT secs d st =
     (let qty = Number (d_Quantity d)
      in case assetIdOf secs (d_SecurityId d) of
           Inl err \<Rightarrow> Inl err
         | Inr assetId \<Rightarrow>
             Inr (giftLoop d assetId
                    (openLotsBySecurity (lots st) (d_OwnerFromId d) (d_SecurityId d)) qty st))"

subsection \<open>TRANSFER\<close>

definition transferStep :: "row \<Rightarrow> string \<Rightarrow> nat \<Rightarrow> jsnum \<Rightarrow> state \<Rightarrow> state" where
  "transferStep d assetId i qty st =
     (let lot = lots st ! i;
          move = jmin (OpenQty lot) qty;
          frac = jdiv move (OpenQty lot)
      in if jlt move (OpenQty lot)
         then (let costNativeMove = jmul (CostNative lot) frac;
                   costINRMove = jmul (CostINR lot) frac;
                   pushed = lots st @
                     [\<lparr>LotId = lotSeq st, OwnerId = d_OwnerToId d, SecurityId = SecurityId lot,
                       AssetId = assetId, BuyDate = BuyDate lot, OpenQty = move,
                       CostNative = costNativeMove, CostPriceNative = CostPriceNative lot,
                       CostINR = costINRMove, BuyFXRate = BuyFXRate lot,
                       BrokerId = d_BrokerToId d, AccountId = d_AccountToId d\<rparr>]
               in st\<lparr>lots := pushed[i := lot\<lparr>OpenQty := jsub (OpenQty lot) move,
                                              CostNative := jsub (CostNative lot) costNativeMove,
                                              CostINR := jsub (CostINR lot) costINRMove\<rparr>],
                     lotSeq := lotSeq st + 1\<rparr>)
         else st\<lparr>lots := (lots st)[i := lot\<lparr>OwnerId := d_OwnerToId d,
                                               BrokerId := d_BrokerToId d,
                                               AccountId := d_AccountToId d\<rparr>]\<rparr>)"

fun transferLoop :: "row \<Rightarrow> string \<Rightarrow> nat list \<Rightarrow> jsnum \<Rightarrow> state \<Rightarrow> state" where
  "transferLoop d assetId [] qty st = st"
| "transferLoop d assetId (i # rest) qty st =
     (if jle0 qty then st
      else transferLoop d assetId rest
             (jsub qty (jmin (OpenQty (lots st ! i)) qty))
             (transferStep d assetId i qty st))"

definition applyTRANSFER :: "(string \<rightharpoonup> security) \<Rightarrow> row \<Rightarrow> state \<Rightarrow> error + state" where
  "applyTRANSFER secs d st =
     (let qty = Number (d_Quantity d)
      in case assetIdOf secs (d_SecurityId d) of
           Inl err \<Rightarrow> Inl err
         | Inr assetId \<Rightarrow>
             Inr (transferLoop d assetId
                    (openLotsBySecurity (lots st) (d_OwnerFromId d) (d_SecurityId d)) qty st))"

subsection \<open>The replay\<close>

text \<open>
  The body of \<open>events.forEach\<close>: a chain of \<open>if (e.Type === ...)\<close> on pairwise different
  tags, so at most one rule runs; an event of any other type changes nothing.
\<close>

definition processEvent :: "(string \<rightharpoonup> security) \<Rightarrow> state \<Rightarrow> event \<Rightarrow> error + state" where
  "processEvent secs st e =
     (case Type e of
        BUY \<Rightarrow> applyBUY secs (Data e) st
      | CLASS_REORG \<Rightarrow> applyCLASS_REORG secs (Data e) st
      | SELL \<Rightarrow> applySELL secs (Data e) st
      | SPLIT \<Rightarrow> Inr (applySPLIT (Data e) st)
      | BONUS \<Rightarrow> applyBONUS secs (Data e) st
      | MERGER \<Rightarrow> applyMERGER secs (Data e) st
      | GIFT \<Rightarrow> applyGIFT secs (Data e) st
      | TRANSFER \<Rightarrow> applyTRANSFER secs (Data e) st
      | OTHER \<Rightarrow> Inr st)"

fun runEvents :: "(string \<rightharpoonup> security) \<Rightarrow> event list \<Rightarrow> state \<Rightarrow> error + state" where
  "runEvents secs [] st = Inr st"
| "runEvents secs (e # es) st =
     (case processEvent secs st e of
        Inl err \<Rightarrow> Inl err
      | Inr st' \<Rightarrow> runEvents secs es st')"

definition initState :: state where
  "initState = \<lparr>lots = [], consumes = [], lotSeq = 1, consumeSeq = 1\<rparr>"

text \<open>
  \<open>rebuildLots\<close>: the two \<open>writeTable\<close> calls are its last statements, so a thrown error
  (\<open>Inl\<close>) publishes nothing; otherwise \<open>Lots_Current\<close> and \<open>LotConsumes\<close> are returned.
\<close>

definition rebuildLots :: "row list \<Rightarrow> row list \<Rightarrow> security list \<Rightarrow> error + (lot list \<times> consume list)" where
  "rebuildLots trades actions securities =
     (case runEvents (mkSecs securities) (sortedEvents trades actions) initState of
        Inl err \<Rightarrow> Inl err
      | Inr st \<Rightarrow> Inr (filter (\<lambda>l. jgt0 (OpenQty l)) (lots st), consumes st))"

section \<open>Vocabulary of the claims\<close>

text \<open>The order that the comparator of the event sort defines on events whose type is a
  key of the priority table.\<close>

definition priority :: "event \<Rightarrow> int" where
  "priority e = (case order (Type e) of Some p \<Rightarrow> p | None \<Rightarrow> 0)"

definition eventLe :: "event \<Rightarrow> event \<Rightarrow> bool" where
  "eventLe a b = (Date a < Date b \<or> (Date a = Date b \<and> priority a \<le> priority b))"


fun finite_num :: "jsnum \<Rightarrow> bool" where
  "finite_num (Fin a) = True"
| "finite_num x = False"



definition ratioOf :: "row \<Rightarrow> jsnum" where
  "ratioOf d = jdiv (Number (d_SplitNumerator d)) (Number (d_SplitDenominator d))"






text \<open>The common shape of the three FIFO loops (SELL, GIFT, TRANSFER): stop when the
  remaining quantity is not positive, otherwise run the step on the next lot and reduce the
  remaining quantity by what the step took.\<close>

fun fifoLoop :: "(nat \<Rightarrow> jsnum \<Rightarrow> state \<Rightarrow> state) \<Rightarrow> nat list \<Rightarrow> jsnum \<Rightarrow> state \<Rightarrow> state" where
  "fifoLoop step [] qty st = st"
| "fifoLoop step (i # rest) qty st =
     (if jle0 qty then st
      else fifoLoop step rest (jsub qty (jmin (OpenQty (lots st ! i)) qty)) (step i qty st))"


text \<open>The owner whose FIFO queue a SELL, GIFT or TRANSFER walks, the queue, the total open
  quantity of a list of store positions, and an event with another requested quantity.\<close>

definition sourceOwner :: "event \<Rightarrow> string" where
  "sourceOwner e = (if Type e = SELL then d_OwnerId (Data e) else d_OwnerFromId (Data e))"

definition fifoOf :: "event \<Rightarrow> state \<Rightarrow> nat list" where
  "fifoOf e st = openLotsBySecurity (lots st) (sourceOwner e) (d_SecurityId (Data e))"

definition openQtyOf :: "lot list \<Rightarrow> nat \<Rightarrow> rat" where
  "openQtyOf ls i = (case OpenQty (ls ! i) of Fin r \<Rightarrow> r | _ \<Rightarrow> 0)"

definition totalOpen :: "lot list \<Rightarrow> nat list \<Rightarrow> rat" where
  "totalOpen ls idxs = sum_list (map (openQtyOf ls) idxs)"

definition withQuantity :: "event \<Rightarrow> cell \<Rightarrow> event" where
  "withQuantity e c = e\<lparr>Data := (Data e)\<lparr>d_Quantity := c\<rparr>\<rparr>"

text \<open>A lot after a TRANSFER moved all of it.\<close>

definition movedWhole :: "row \<Rightarrow> lot \<Rightarrow> lot" where
  "movedWhole d lot =
     lot\<lparr>OwnerId := d_OwnerToId d, BrokerId := d_BrokerToId d, AccountId := d_AccountToId d\<rparr>"






section \<open>Example tables\<close>

text \<open>A row with every column absent, and rows of the two tables built from it.\<close>

definition row0 :: row where
  "row0 = \<lparr>d_TradeId = '''', d_TradeDate = 0, d_Side = OTHER, d_ActionDate = 0,
            d_ActionType = OTHER, d_OwnerId = '''', d_BrokerId = '''', d_AccountId = '''',
            d_SecurityId = '''', d_Quantity = NonNumeric, d_Price = NonNumeric,
            d_FXRateToINR = NonNumeric, d_OwnerFromId = '''', d_OwnerToId = '''',
            d_BrokerToId = '''', d_AccountToId = '''', d_SecurityToId = '''',
            d_SplitNumerator = NonNumeric, d_SplitDenominator = NonNumeric\<rparr>"

definition tradeRow :: "string \<Rightarrow> etype \<Rightarrow> int \<Rightarrow> string \<Rightarrow> string \<Rightarrow> cell \<Rightarrow> cell \<Rightarrow> cell \<Rightarrow> row" where
  "tradeRow tid side day owner sec q p fx =
     row0\<lparr>d_TradeId := tid, d_Side := side, d_TradeDate := day, d_OwnerId := owner,
          d_BrokerId := ''B1'', d_AccountId := ''AC1'',
          d_SecurityId := sec, d_Quantity := q, d_Price := p, d_FXRateToINR := fx\<rparr>"

definition ratioRow :: "etype \<Rightarrow> int \<Rightarrow> string \<Rightarrow> string \<Rightarrow> cell \<Rightarrow> cell \<Rightarrow> row" where
  "ratioRow ty day sec secTo n m =
     row0\<lparr>d_ActionType := ty, d_ActionDate := day, d_SecurityId := sec, d_SecurityToId := secTo,
          d_SplitNumerator := n, d_SplitDenominator := m\<rparr>"


definition exSecurities :: "security list" where
  "exSecurities = [\<lparr>s_SecurityId = ''X'', s_AssetId = ''AX''\<rparr>,
                   \<lparr>s_SecurityId = ''G'', s_AssetId = ''AG''\<rparr>,
                   \<lparr>s_SecurityId = ''H'', s_AssetId = ''AG''\<rparr>]"

definition exLot :: "nat \<Rightarrow> string \<Rightarrow> string \<Rightarrow> int \<Rightarrow> rat \<Rightarrow> rat \<Rightarrow> rat \<Rightarrow> lot" where
  "exLot n owner sec day q p fx =
     \<lparr>LotId = n, OwnerId = owner, SecurityId = sec, AssetId = ''AX'', BuyDate = day,
      OpenQty = Fin q, CostNative = Fin (q * p), CostPriceNative = Fin p,
      CostINR = Fin (q * p * fx), BuyFXRate = Fin fx, BrokerId = ''B1'', AccountId = ''AC1''\<rparr>"

definition exState :: "lot list \<Rightarrow> state" where
  "exState ls = \<lparr>lots = ls, consumes = [], lotSeq = Suc (length ls), consumeSeq = 1\<rparr>"

text \<open>A same-day SELL, CLASS_REORG and SPLIT, after a BUY.\<close>

definition c1_trades :: "row list" where
  "c1_trades = [tradeRow ''T1'' BUY 1 ''A'' ''X'' (Numeric 10) (Numeric 10) (Numeric 80),
                tradeRow ''T2'' SELL 5 ''A'' ''X'' (Numeric 15) (Numeric 15) (Numeric 82)]"

definition c1_actions :: "row list" where
  "c1_actions = [ratioRow CLASS_REORG 5 ''G'' ''H'' (Numeric 1) (Numeric 1),
                 ratioRow SPLIT 5 ''X'' '''' (Numeric 2) (Numeric 1)]"



text \<open>A BUY of 10 shares and a MERGER at 1:20, which floors the lot to 0 shares.\<close>

definition c6_trades :: "row list" where
  "c6_trades = [tradeRow ''T1'' BUY 1 ''A'' ''X'' (Numeric 10) (Numeric 20) (Numeric 80)]"

definition c6_actions :: "row list" where
  "c6_actions = [ratioRow MERGER 5 ''X'' ''G'' (Numeric 1) (Numeric 20)]"



definition c9_state :: state where
  "c9_state = exState [exLot 1 ''A'' ''X'' 1 100 10 80]"

definition c9_bonus :: event where
  "c9_bonus = actionEvent (ratioRow BONUS 9 ''X'' '''' (Numeric 2) (Numeric 1))"






text \<open>Two lots of owner A in security X, bought on days 1 and 3 (the older one second in the
  store), and a GIFT of 120 shares to owner B: all of the older lot and 20 of the other.\<close>

definition c8_state :: state where
  "c8_state = exState [exLot 1 ''A'' ''X'' 3 50 12 81, exLot 2 ''A'' ''X'' 1 100 10 80]"



text \<open>A SELL of 200 shares by owner A, who holds 100 and 50.\<close>

definition c7_sell :: event where
  "c7_sell = tradeEvent (tradeRow ''T9'' SELL 9 ''A'' ''X'' (Numeric 200) (Numeric 15) (Numeric 82))"






section \<open>Properties\<close>

lemma jsub_Fin: "jsub (Fin a) (Fin b) = Fin (a - b)"
  by (simp add: jsub_def)

subsection \<open>The sort\<close>

lemma set_insertBy: "set (insertBy cmp x xs) = insert x (set xs)"
  by (induction xs) auto

lemma length_insertBy: "length (insertBy cmp x xs) = Suc (length xs)"
  by (induction xs) auto

lemma distinct_insertBy: "distinct (insertBy cmp x xs) = (x \<notin> set xs \<and> distinct xs)"
  by (induction xs) (auto simp: set_insertBy)

lemma set_sortBy: "set (sortBy cmp xs) = set xs"
  unfolding sortBy_def by (induction xs) (auto simp: set_insertBy)

lemma length_sortBy: "length (sortBy cmp xs) = length xs"
  unfolding sortBy_def by (induction xs) (auto simp: length_insertBy)

lemma distinct_sortBy: "distinct (sortBy cmp xs) = distinct xs"
proof (induction xs)
  case Nil
  show ?case by (simp add: sortBy_def)
next
  case (Cons x xs)
  have "sortBy cmp (x # xs) = insertBy cmp x (sortBy cmp xs)"
    by (simp add: sortBy_def)
  with Cons show ?case
    by (simp add: distinct_insertBy set_sortBy)
qed

lemma count_insertBy: "count_list (insertBy cmp x xs) y = count_list (x # xs) y"
  by (induction xs) auto

lemma count_sortBy: "count_list (sortBy cmp xs) y = count_list xs y"
  unfolding sortBy_def by (induction xs) (simp_all add: count_insertBy)

lemma sorted_wrt_insertBy:
  assumes "sorted_wrt R ys"
    and "\<And>y. y \<in> set ys \<Longrightarrow> jgt0 (cmp x y) \<Longrightarrow> R y x"
    and "\<And>y. y \<in> set ys \<Longrightarrow> \<not> jgt0 (cmp x y) \<Longrightarrow> R x y"
    and "\<And>y z. y \<in> set ys \<Longrightarrow> z \<in> set ys \<Longrightarrow> R x y \<Longrightarrow> R y z \<Longrightarrow> R x z"
  shows "sorted_wrt R (insertBy cmp x ys)"
  using assms
proof (induction ys)
  case Nil
  show ?case by simp
next
  case (Cons y ys)
  show ?case
  proof (cases "jgt0 (cmp x y)")
    case True
    have "sorted_wrt R (insertBy cmp x ys)"
      using Cons.prems by (intro Cons.IH) auto
    moreover have "R y x" using Cons.prems(2) True by simp
    ultimately show ?thesis
      using True Cons.prems(1) by (auto simp: set_insertBy)
  next
    case False
    then have "R x y" using Cons.prems(3) by simp
    moreover have "\<forall>z\<in>set ys. R x z"
      using Cons.prems(1,4) \<open>R x y\<close> by auto
    ultimately show ?thesis
      using False Cons.prems(1) by auto
  qed
qed

lemma sorted_wrt_sortBy:
  assumes "\<And>x y. x \<in> set xs \<Longrightarrow> y \<in> set xs \<Longrightarrow> jgt0 (cmp x y) \<Longrightarrow> R y x"
    and "\<And>x y. x \<in> set xs \<Longrightarrow> y \<in> set xs \<Longrightarrow> \<not> jgt0 (cmp x y) \<Longrightarrow> R x y"
    and "\<And>x y z. x \<in> set xs \<Longrightarrow> y \<in> set xs \<Longrightarrow> z \<in> set xs \<Longrightarrow> R x y \<Longrightarrow> R y z \<Longrightarrow> R x z"
  shows "sorted_wrt R (sortBy cmp xs)"
  using assms
proof (induction xs)
  case Nil
  show ?case by (simp add: sortBy_def)
next
  case (Cons x xs)
  have eq: "sortBy cmp (x # xs) = insertBy cmp x (sortBy cmp xs)"
    by (simp add: sortBy_def)
  have "sorted_wrt R (sortBy cmp xs)"
  proof (rule Cons.IH)
    fix a b assume "a \<in> set xs" "b \<in> set xs" "jgt0 (cmp a b)"
    then show "R b a" using Cons.prems(1)[of a b] by simp
  next
    fix a b assume "a \<in> set xs" "b \<in> set xs" "\<not> jgt0 (cmp a b)"
    then show "R a b" using Cons.prems(2)[of a b] by simp
  next
    fix a b c assume "a \<in> set xs" "b \<in> set xs" "c \<in> set xs" "R a b" "R b c"
    then show "R a c" using Cons.prems(3)[of a b c] by simp
  qed
  then show ?case
    unfolding eq
  proof (rule sorted_wrt_insertBy)
    fix y assume "y \<in> set (sortBy cmp xs)" "jgt0 (cmp x y)"
    then show "R y x" using Cons.prems(1)[of x y] by (simp add: set_sortBy)
  next
    fix y assume "y \<in> set (sortBy cmp xs)" "\<not> jgt0 (cmp x y)"
    then show "R x y" using Cons.prems(2)[of x y] by (simp add: set_sortBy)
  next
    fix y z assume "y \<in> set (sortBy cmp xs)" "z \<in> set (sortBy cmp xs)" "R x y" "R y z"
    then show "R x z" using Cons.prems(3)[of x y z] by (simp add: set_sortBy)
  qed
qed

lemma eventCmp_gt0:
  assumes "order (Type a) \<noteq> None" "order (Type b) \<noteq> None"
  shows "jgt0 (eventCmp a b) = (\<not> eventLe a b)"
  using assms by (auto simp: eventCmp_def jor_def orderDiff_def eventLe_def priority_def)

lemma eventCmp_gt0_date: "jgt0 (eventCmp a b) \<Longrightarrow> Date b \<le> Date a"
  by (auto simp: eventCmp_def jor_def split: if_splits)

lemma eventCmp_le_date: "\<not> jgt0 (eventCmp a b) \<Longrightarrow> Date a \<le> Date b"
  by (auto simp: eventCmp_def jor_def split: if_splits)

lemma sortedEvents_by_date:
  "sorted_wrt (\<lambda>a b. Date a \<le> Date b) (sortBy eventCmp es)"
proof (rule sorted_wrt_sortBy)
  fix x y :: event assume "jgt0 (eventCmp x y)"
  then show "Date y \<le> Date x" by (rule eventCmp_gt0_date)
next
  fix x y :: event assume "\<not> jgt0 (eventCmp x y)"
  then show "Date x \<le> Date y" by (rule eventCmp_le_date)
next
  fix x y z :: event assume "Date x \<le> Date y" "Date y \<le> Date z"
  then show "Date x \<le> Date z" by simp
qed

lemma sortedEvents_by_priority:
  assumes "\<forall>e\<in>set es. order (Type e) \<noteq> None"
  shows "sorted_wrt eventLe (sortBy eventCmp es)"
proof (rule sorted_wrt_sortBy)
  fix x y assume "x \<in> set es" "y \<in> set es" "jgt0 (eventCmp x y)"
  then show "eventLe y x" using assms by (auto simp: eventCmp_gt0 eventLe_def)
next
  fix x y assume "x \<in> set es" "y \<in> set es" "\<not> jgt0 (eventCmp x y)"
  then show "eventLe x y" using assms by (auto simp: eventCmp_gt0)
next
  fix x y z assume "eventLe x y" "eventLe y z"
  then show "eventLe x z" by (auto simp: eventLe_def)
qed

text \<open>
  Claim C1: events are processed in ascending date order and, on one date, in ascending
  order of the priority table, so that a SPLIT, BONUS or MERGER dated the same day as a
  SELL, GIFT or TRANSFER is applied before it.

  \<open>sortedEvents_by_date\<close> and \<open>sortedEvents_by_priority\<close> above give the order when every
  event type is a key of the table. CLASS_REORG is a type the engine handles but the table
  does not list: its comparisons with same-day events are \<open>NaN\<close>, that is \<open>0\<close>, so it is
  equal to a SELL and equal to a SPLIT while the SELL is greater than the SPLIT. With the
  trades BUY (day 1), SELL (day 5) and the actions CLASS_REORG (day 5), SPLIT 2:1 (day 5),
  every neighbouring pair of the unsorted array is already in order, the array is left as it
  is, and the SELL of 15 shares is replayed before the same-day SPLIT: it finds 10 shares
  instead of 20, and no lot is left.
\<close>

theorem same_day_reorg_breaks_priority:
  "map Type (sortedEvents c1_trades c1_actions) = [BUY, SELL, CLASS_REORG, SPLIT] \<and>
   rebuildLots c1_trades c1_actions exSecurities =
     Inr ([], [\<lparr>c_ConsumeId = 1, c_TradeId = ''T2'', c_OwnerId = ''A'',
          c_SecurityId = ''X'', c_AssetId = ''AX'', c_LotId = 1,
          c_BuyDate = 1, c_SellDate = 5, c_Quantity = Fin 10,
          c_CostNative = Fin 100, c_CostPriceNative = Fin 10,
          c_CostINR = Fin 8000, c_CostFXRate = Fin 80,
          c_SalePriceNative = Fin 15, c_SaleFXRate = Fin 82,
          c_ProceedsNative = Fin 150, c_ProceedsINR = Fin 12300\<rparr>])"
proof -
  have order: "sortedEvents c1_trades c1_actions =
      map tradeEvent c1_trades @ map actionEvent c1_actions"
    by (simp add: sortedEvents_def sortBy_def c1_trades_def c1_actions_def tradeRow_def
        ratioRow_def row0_def tradeEvent_def actionEvent_def eventCmp_def jor_def orderDiff_def)
  have types: "map Type (map tradeEvent c1_trades @ map actionEvent c1_actions) =
      [BUY, SELL, CLASS_REORG, SPLIT]"
    by (simp add: c1_trades_def c1_actions_def tradeRow_def ratioRow_def row0_def
        tradeEvent_def actionEvent_def)
  have run: "rebuildLots c1_trades c1_actions exSecurities =
     Inr ([], [\<lparr>c_ConsumeId = 1, c_TradeId = ''T2'', c_OwnerId = ''A'',
          c_SecurityId = ''X'', c_AssetId = ''AX'', c_LotId = 1,
          c_BuyDate = 1, c_SellDate = 5, c_Quantity = Fin 10,
          c_CostNative = Fin 100, c_CostPriceNative = Fin 10,
          c_CostINR = Fin 8000, c_CostFXRate = Fin 80,
          c_SalePriceNative = Fin 15, c_SaleFXRate = Fin 82,
          c_ProceedsNative = Fin 150, c_ProceedsINR = Fin 12300\<rparr>])"
    unfolding rebuildLots_def order
    by (simp add: c1_trades_def c1_actions_def tradeRow_def ratioRow_def row0_def
        tradeEvent_def actionEvent_def exSecurities_def mkSecs_def initState_def
        processEvent_def applyBUY_def applySELL_def applySPLIT_def applyCLASS_REORG_def
        assetIdOf_def openLotsBySecurity_def isOpenFor_def sortBy_def buyDateCmp_def
        sellStep_def reorgSources_def reorgQtyRatio_def splitLot_def jsub_Fin jor_def Let_def)
  show ?thesis using order types run by simp
qed

subsection \<open>SELL against two open lots\<close>





subsection \<open>SPLIT and MERGER keep the aggregate costs\<close>





lemma map_singleton_nth: "length xs = Suc 0 \<Longrightarrow> map f xs = [f (xs ! 0)]"
  by (cases xs) simp_all


subsection \<open>BONUS\<close>

lemma bonus_fold:
  "\<exists>created.
     foldl (bonusStep d a r) st ls =
       st\<lparr>lots := lots st @ created, lotSeq := lotSeq st + length created\<rparr> \<and>
     (\<forall>l\<in>set created. CostNative l = Fin 0 \<and> CostINR l = Fin 0 \<and> CostPriceNative l = Fin 0 \<and>
                       BuyDate l = d_ActionDate d \<and> jgt0 (OpenQty l)) \<and>
     map OpenQty created = filter jgt0 (map (\<lambda>l. jmul (OpenQty l) r) ls)"
proof (induction ls arbitrary: st)
  case Nil
  show ?case by (rule exI[of _ "[]"]) simp
next
  case (Cons l ls)
  let ?q = "jmul (OpenQty l) r"
  show ?case
  proof (cases "jgt0 ?q")
    case False
    then have "foldl (bonusStep d a r) st (l # ls) = foldl (bonusStep d a r) st ls"
      by (simp add: bonusStep_def)
    with Cons.IH[of st] False show ?thesis by simp
  next
    case True
    define n where "n = \<lparr>LotId = lotSeq st, OwnerId = OwnerId l, SecurityId = SecurityId l,
                      AssetId = a, BuyDate = d_ActionDate d, OpenQty = ?q,
                      CostNative = Fin 0, CostPriceNative = Fin 0, CostINR = Fin 0,
                      BuyFXRate = BuyFXRate l, BrokerId = BrokerId l,
                      AccountId = AccountId l\<rparr>"
    define st1 where "st1 = st\<lparr>lots := lots st @ [n], lotSeq := lotSeq st + 1\<rparr>"
    have step: "foldl (bonusStep d a r) st (l # ls) = foldl (bonusStep d a r) st1 ls"
      using True by (simp add: bonusStep_def st1_def n_def)
    from Cons.IH[of st1] obtain created where
      c1: "foldl (bonusStep d a r) st1 ls =
             st1\<lparr>lots := lots st1 @ created, lotSeq := lotSeq st1 + length created\<rparr>"
      and c2: "\<forall>l\<in>set created. CostNative l = Fin 0 \<and> CostINR l = Fin 0 \<and> CostPriceNative l = Fin 0 \<and>
                       BuyDate l = d_ActionDate d \<and> jgt0 (OpenQty l)"
      and c3: "map OpenQty created = filter jgt0 (map (\<lambda>l. jmul (OpenQty l) r) ls)"
      by blast
    show ?thesis
    proof (intro exI[of _ "n # created"] conjI)
      show "foldl (bonusStep d a r) st (l # ls) =
          st\<lparr>lots := lots st @ n # created, lotSeq := lotSeq st + length (n # created)\<rparr>"
        unfolding step c1 by (simp add: st1_def)
      show "\<forall>l\<in>set (n # created). CostNative l = Fin 0 \<and> CostINR l = Fin 0 \<and>
              CostPriceNative l = Fin 0 \<and> BuyDate l = d_ActionDate d \<and> jgt0 (OpenQty l)"
        using c2 True by (simp add: n_def)
      show "map OpenQty (n # created) = filter jgt0 (map (\<lambda>l. jmul (OpenQty l) r) (l # ls))"
        using c3 True by (simp add: n_def)
    qed
  qed
qed

text \<open>
  Claim C9: every lot that a BONUS creates has aggregate native cost, aggregate reporting
  cost and per-share cost 0 and the action's date as acquisition date; a lot is spawned
  only for a positive bonus quantity, open quantity times (ratio - 1); the lots that were
  in the store are left as they were (the new store is the old one followed by the created
  lots).
\<close>

theorem bonus_lots_zero_cost:
  assumes "Type e = BONUS" and "secs (d_SecurityId (Data e)) = Some s"
  shows "\<exists>created.
     processEvent secs st e =
       Inr (st\<lparr>lots := lots st @ created, lotSeq := lotSeq st + length created\<rparr>) \<and>
     (\<forall>l\<in>set created. CostNative l = Fin 0 \<and> CostINR l = Fin 0 \<and> CostPriceNative l = Fin 0 \<and>
                       BuyDate l = d_ActionDate (Data e) \<and> jgt0 (OpenQty l)) \<and>
     map OpenQty created =
       filter jgt0 (map (\<lambda>l. jmul (OpenQty l) (jsub (ratioOf (Data e)) (Fin 1)))
                     (filter (\<lambda>l. SecurityId l = d_SecurityId (Data e) \<and> jgt0 (OpenQty l))
                        (lots st)))"
proof -
  have "processEvent secs st e =
      Inr (foldl (bonusStep (Data e) (s_AssetId s) (jsub (ratioOf (Data e)) (Fin 1))) st
             (filter (\<lambda>l. SecurityId l = d_SecurityId (Data e) \<and> jgt0 (OpenQty l)) (lots st)))"
    using assms by (simp add: processEvent_def applyBONUS_def assetIdOf_def ratioOf_def Let_def)
  then show ?thesis
    using bonus_fold[of "Data e" "s_AssetId s" "jsub (ratioOf (Data e)) (Fin 1)" st
        "filter (\<lambda>l. SecurityId l = d_SecurityId (Data e) \<and> jgt0 (OpenQty l)) (lots st)"]
    by simp
qed

theorem bonus_lots_zero_cost_witness:
  "\<exists>created.
     processEvent (mkSecs exSecurities) c9_state c9_bonus =
       Inr (c9_state\<lparr>lots := lots c9_state @ created, lotSeq := 3\<rparr>) \<and>
     map OpenQty created = [Fin 100] \<and> map CostNative created = [Fin 0] \<and>
     map CostINR created = [Fin 0] \<and> map CostPriceNative created = [Fin 0] \<and>
     map BuyDate created = [9]"
proof -
  have ty: "Type c9_bonus = BONUS"
    by (simp add: c9_bonus_def actionEvent_def ratioRow_def row0_def)
  have sec: "mkSecs exSecurities (d_SecurityId (Data c9_bonus)) =
      Some \<lparr>s_SecurityId = ''X'', s_AssetId = ''AX''\<rparr>"
    by (simp add: c9_bonus_def actionEvent_def ratioRow_def row0_def mkSecs_def exSecurities_def)
  from bonus_lots_zero_cost[where e = c9_bonus and secs = "mkSecs exSecurities" and st = c9_state,
      OF ty sec]
  obtain created where
    run: "processEvent (mkSecs exSecurities) c9_state c9_bonus =
       Inr (c9_state\<lparr>lots := lots c9_state @ created, lotSeq := lotSeq c9_state + length created\<rparr>)"
    and zero: "\<forall>l\<in>set created. CostNative l = Fin 0 \<and> CostINR l = Fin 0 \<and>
                CostPriceNative l = Fin 0 \<and> BuyDate l = d_ActionDate (Data c9_bonus) \<and>
                jgt0 (OpenQty l)"
    and qty: "map OpenQty created =
       filter jgt0 (map (\<lambda>l. jmul (OpenQty l) (jsub (ratioOf (Data c9_bonus)) (Fin 1)))
                     (filter (\<lambda>l. SecurityId l = d_SecurityId (Data c9_bonus) \<and> jgt0 (OpenQty l))
                        (lots c9_state)))"
    by blast
  have q: "map OpenQty created = [Fin 100]"
    unfolding qty
    by (simp add: c9_state_def exState_def exLot_def c9_bonus_def actionEvent_def ratioRow_def
        row0_def ratioOf_def jsub_Fin)
  then have len: "length created = Suc 0"
    using length_map[of OpenQty created] by simp
  then have mem: "created ! 0 \<in> set created" by simp
  have day: "d_ActionDate (Data c9_bonus) = 9"
    by (simp add: c9_bonus_def actionEvent_def ratioRow_def row0_def)
  have seq: "lotSeq c9_state + length created = 3"
    using len by (simp add: c9_state_def exState_def)
  show ?thesis
    using run q zero[rule_format, OF mem] day
    by (intro exI[of _ created]) (simp add: map_singleton_nth[OF len] seq)
qed

subsection \<open>Division by a floored quantity\<close>

text \<open>
  Claim C6: every division that allocates a fraction of a lot's cost or recomputes a
  per-share cost is guarded against a zero divisor, the per-share cost of a MERGER after
  flooring included. The FIFO rules divide by the open quantity of lots that the query
  returned as open, and CLASS_REORG guards both of its divisions by a quantity. MERGER
  divides the aggregate cost by the floored quantity without a guard: a lot of 10 shares
  that cost 200, merged at 1:20, is floored to 0 shares and its per-share cost becomes
  \<open>200 / 0\<close>, an infinity.
\<close>

theorem merger_divides_by_zero:
  "runEvents (mkSecs exSecurities) (sortedEvents c6_trades c6_actions) initState =
     Inr \<lparr>lots = [\<lparr>LotId = 1, OwnerId = ''A'', SecurityId = ''G'', AssetId = ''AG'',
                   BuyDate = 1, OpenQty = Fin 0, CostNative = Fin 200,
                   CostPriceNative = PInf, CostINR = Fin 16000, BuyFXRate = Fin 80,
                   BrokerId = ''B1'', AccountId = ''AC1''\<rparr>],
          consumes = [], lotSeq = 2, consumeSeq = 1\<rparr>"
  by (simp add: sortedEvents_def sortBy_def c6_trades_def c6_actions_def tradeRow_def
        ratioRow_def row0_def tradeEvent_def actionEvent_def eventCmp_def jor_def orderDiff_def
        exSecurities_def mkSecs_def initState_def processEvent_def applyBUY_def applyMERGER_def
        assetIdOf_def mergeLot_def inf_signed_def floor_eq_iff Let_def)

subsection \<open>When the rebuild throws\<close>







subsection \<open>CLASS_REORG\<close>



















subsection \<open>The FIFO query\<close>

lemma openLots_set:
  "set (openLotsBySecurity ls owner sec) = {i. i < length ls \<and> isOpenFor ls owner sec i}"
  by (auto simp: openLotsBySecurity_def set_sortBy)

lemma openLots_distinct: "distinct (openLotsBySecurity ls owner sec)"
  by (simp add: openLotsBySecurity_def distinct_sortBy)


lemma openLots_fifo:
  "sorted_wrt (\<lambda>a b. BuyDate (ls ! a) \<le> BuyDate (ls ! b)) (openLotsBySecurity ls owner sec)"
  unfolding openLotsBySecurity_def
proof (rule sorted_wrt_sortBy)
  fix x y assume "jgt0 (buyDateCmp ls x y)"
  then show "BuyDate (ls ! y) \<le> BuyDate (ls ! x)" by (simp add: buyDateCmp_def)
next
  fix x y assume "\<not> jgt0 (buyDateCmp ls x y)"
  then show "BuyDate (ls ! x) \<le> BuyDate (ls ! y)" by (simp add: buyDateCmp_def)
next
  fix x y z assume "BuyDate (ls ! x) \<le> BuyDate (ls ! y)" "BuyDate (ls ! y) \<le> BuyDate (ls ! z)"
  then show "BuyDate (ls ! x) \<le> BuyDate (ls ! z)" by simp
qed

subsection \<open>The FIFO loops\<close>

lemma sellLoop_fifoLoop:
  "sellLoop d a p f idxs qty st = fifoLoop (sellStep d a p f) idxs qty st"
  by (induction idxs arbitrary: qty st) simp_all

lemma giftLoop_fifoLoop:
  "giftLoop d a idxs qty st = fifoLoop (giftStep d a) idxs qty st"
  by (induction idxs arbitrary: qty st) simp_all

lemma transferLoop_fifoLoop:
  "transferLoop d a idxs qty st = fifoLoop (transferStep d a) idxs qty st"
  by (induction idxs arbitrary: qty st) simp_all

lemma fifoLoop_length:
  assumes len: "\<And>i q s. length (lots s) \<le> length (lots (step i q s))"
  shows "length (lots st) \<le> length (lots (fifoLoop step idxs qty st))"
proof (induction idxs arbitrary: qty st)
  case Nil
  show ?case by simp
next
  case (Cons i idxs)
  show ?case
  proof (cases "jle0 qty")
    case True
    then show ?thesis by simp
  next
    case False
    have "length (lots st) \<le> length (lots (step i qty st))" by (rule len)
    also have "\<dots> \<le> length (lots (fifoLoop step idxs
        (jsub qty (jmin (OpenQty (lots st ! i)) qty)) (step i qty st)))"
      by (rule Cons.IH)
    finally show ?thesis using False by simp
  qed
qed

lemma fifoLoop_frame:
  assumes len: "\<And>i q s. length (lots s) \<le> length (lots (step i q s))"
    and frame: "\<And>i q s j. j < length (lots s) \<Longrightarrow> j \<noteq> i \<Longrightarrow> lots (step i q s) ! j = lots s ! j"
    and "j < length (lots st)" "j \<notin> set idxs"
  shows "lots (fifoLoop step idxs qty st) ! j = lots st ! j"
  using assms(3,4)
proof (induction idxs arbitrary: qty st)
  case Nil
  show ?case by simp
next
  case (Cons i idxs)
  show ?case
  proof (cases "jle0 qty")
    case True
    then show ?thesis by simp
  next
    case False
    let ?st1 = "step i qty st"
    have j1: "j < length (lots ?st1)"
      using Cons.prems(1) len[of st i qty] by simp
    have "lots (fifoLoop step idxs (jsub qty (jmin (OpenQty (lots st ! i)) qty)) ?st1) ! j =
          lots ?st1 ! j"
      using j1 Cons.prems(2) by (intro Cons.IH) simp_all
    also have "\<dots> = lots st ! j"
      using Cons.prems by (intro frame) simp_all
    finally show ?thesis using False by simp
  qed
qed

subsection \<open>GIFT\<close>

lemma giftStep_length: "length (lots (giftStep d a i q st)) = Suc (length (lots st))"
  by (simp add: giftStep_def Let_def)

lemma giftStep_frame:
  assumes "j < length (lots st)" "j \<noteq> i"
  shows "lots (giftStep d a i q st) ! j = lots st ! j"
  using assms by (simp add: giftStep_def Let_def nth_append)




lemma c8_fifo: "openLotsBySecurity (lots c8_state) ''A'' ''X'' = [Suc 0, 0]"
  by (simp add: openLotsBySecurity_def sortBy_def isOpenFor_def buyDateCmp_def c8_state_def
      exState_def exLot_def upt_rec)



subsection \<open>A request above the open total\<close>

lemma totalOpen_Cons: "totalOpen ls (i # idxs) = openQtyOf ls i + totalOpen ls idxs"
  by (simp add: totalOpen_def)

lemma totalOpen_nonneg:
  assumes "\<forall>i\<in>set idxs. jgt0 (OpenQty (ls ! i))"
  shows "0 \<le> totalOpen ls idxs"
  using assms
proof (induction idxs)
  case Nil
  show ?case by (simp add: totalOpen_def)
next
  case (Cons i idxs)
  have "0 \<le> openQtyOf ls i"
    using Cons.prems by (cases "OpenQty (ls ! i)") (simp_all add: openQtyOf_def)
  moreover have "0 \<le> totalOpen ls idxs" using Cons by simp
  ultimately show ?case by (simp add: totalOpen_Cons)
qed

lemma totalOpen_cong:
  assumes "\<forall>i\<in>set idxs. OpenQty (ls' ! i) = OpenQty (ls ! i)"
  shows "totalOpen ls' idxs = totalOpen ls idxs"
proof -
  have "map (openQtyOf ls') idxs = map (openQtyOf ls) idxs"
    by (rule map_cong[OF refl]) (use assms in \<open>simp add: openQtyOf_def\<close>)
  then show ?thesis by (simp only: totalOpen_def)
qed

text \<open>One iteration of a FIFO loop on an open, finite lot when the remaining quantity
  covers it: the loop does not stop, the step takes the whole lot, and the rest of the
  queue is still covered.\<close>

lemma fifoLoop_covered_step:
  assumes frame: "\<And>j. j < length (lots st) \<Longrightarrow> j \<noteq> i \<Longrightarrow> lots (step i (Fin q) st) ! j = lots st ! j"
    and dist: "distinct (i # rest)"
    and ok: "\<forall>j\<in>set (i # rest). j < length (lots st) \<and> jgt0 (OpenQty (lots st ! j)) \<and>
               finite_num (OpenQty (lots st ! j))"
    and cover: "totalOpen (lots st) (i # rest) \<le> q"
  shows "\<exists>ov. OpenQty (lots st ! i) = Fin ov \<and> 0 < ov \<and> ov \<le> q \<and> 0 < q \<and>
           fifoLoop step (i # rest) (Fin q) st =
             fifoLoop step rest (Fin (q - ov)) (step i (Fin q) st) \<and>
           totalOpen (lots (step i (Fin q) st)) rest \<le> q - ov \<and>
           (\<forall>j\<in>set rest. OpenQty (lots (step i (Fin q) st) ! j) = OpenQty (lots st ! j))"
proof -
  from ok obtain ov where ov: "OpenQty (lots st ! i) = Fin ov" "0 < ov"
    by (cases "OpenQty (lots st ! i)") auto
  have rest0: "0 \<le> totalOpen (lots st) rest"
    using ok by (intro totalOpen_nonneg) simp
  have tot: "totalOpen (lots st) (i # rest) = ov + totalOpen (lots st) rest"
    using ov by (simp add: totalOpen_Cons openQtyOf_def)
  have le: "ov \<le> q" and q0: "0 < q" and restle: "totalOpen (lots st) rest \<le> q - ov"
    using cover rest0 ov(2) unfolding tot by linarith+
  have same: "\<forall>j\<in>set rest. OpenQty (lots (step i (Fin q) st) ! j) = OpenQty (lots st ! j)"
  proof
    fix j assume "j \<in> set rest"
    then have "j < length (lots st)" "j \<noteq> i" using ok dist by auto
    then show "OpenQty (lots (step i (Fin q) st) ! j) = OpenQty (lots st ! j)"
      by (simp add: frame)
  qed
  have "totalOpen (lots (step i (Fin q) st)) rest = totalOpen (lots st) rest"
    using same by (rule totalOpen_cong)
  moreover have "fifoLoop step (i # rest) (Fin q) st =
             fifoLoop step rest (Fin (q - ov)) (step i (Fin q) st)"
    using q0 le ov by (simp add: jsub_Fin min_def)
  ultimately show ?thesis
    using ov le q0 restle same by simp
qed

lemma fifoLoop_excess:
  assumes minDep: "\<And>i q q' s. jmin (OpenQty (lots s ! i)) q = jmin (OpenQty (lots s ! i)) q'
                     \<Longrightarrow> step i q s = step i q' s"
    and len: "\<And>i q s. length (lots s) \<le> length (lots (step i q s))"
    and frame: "\<And>i q s j. j < length (lots s) \<Longrightarrow> j \<noteq> i \<Longrightarrow> lots (step i q s) ! j = lots s ! j"
    and "distinct idxs"
    and "\<forall>j\<in>set idxs. j < length (lots st) \<and> jgt0 (OpenQty (lots st ! j)) \<and>
               finite_num (OpenQty (lots st ! j))"
    and "totalOpen (lots st) idxs \<le> q" "totalOpen (lots st) idxs \<le> q'"
  shows "fifoLoop step idxs (Fin q) st = fifoLoop step idxs (Fin q') st"
  using assms(4-7)
proof (induction idxs arbitrary: st q q')
  case Nil
  show ?case by simp
next
  case (Cons i rest)
  let ?st1 = "step i (Fin q) st"
  from fifoLoop_covered_step[where step = step, OF frame Cons.prems(1,2,3)]
  obtain ov where ov: "OpenQty (lots st ! i) = Fin ov" "ov \<le> q"
    and unf: "fifoLoop step (i # rest) (Fin q) st = fifoLoop step rest (Fin (q - ov)) ?st1"
    and tot: "totalOpen (lots ?st1) rest \<le> q - ov"
    and same: "\<forall>j\<in>set rest. OpenQty (lots ?st1 ! j) = OpenQty (lots st ! j)"
    by blast
  from fifoLoop_covered_step[where step = step, OF frame Cons.prems(1,2,4)]
  obtain ov' where ov': "OpenQty (lots st ! i) = Fin ov'" "ov' \<le> q'"
    and unf': "fifoLoop step (i # rest) (Fin q') st =
                 fifoLoop step rest (Fin (q' - ov')) (step i (Fin q') st)"
    and tot': "totalOpen (lots (step i (Fin q') st)) rest \<le> q' - ov'"
    by blast
  have eqov: "ov' = ov" using ov(1) ov'(1) by simp
  have "jmin (OpenQty (lots st ! i)) (Fin q') = jmin (OpenQty (lots st ! i)) (Fin q)"
    using ov ov' by (simp add: min_def)
  then have st1: "step i (Fin q') st = ?st1" by (rule minDep)
  have ok1: "\<forall>j\<in>set rest. j < length (lots ?st1) \<and> jgt0 (OpenQty (lots ?st1 ! j)) \<and>
               finite_num (OpenQty (lots ?st1 ! j))"
  proof
    fix j assume j: "j \<in> set rest"
    then have "j < length (lots st)" using Cons.prems(2) by simp
    then have "j < length (lots ?st1)" using len[of st i "Fin q"] by simp
    then show "j < length (lots ?st1) \<and> jgt0 (OpenQty (lots ?st1 ! j)) \<and>
               finite_num (OpenQty (lots ?st1 ! j))"
      using same j Cons.prems(2) by simp
  qed
  have "fifoLoop step rest (Fin (q - ov)) ?st1 = fifoLoop step rest (Fin (q' - ov)) ?st1"
    using Cons.prems(1) ok1 tot tot'[unfolded st1 eqov]
    by (intro Cons.IH) simp_all
  then show ?case unfolding unf unf' st1 eqov .
qed

lemma fifoLoop_whole:
  assumes len: "\<And>i q s. length (lots s) \<le> length (lots (step i q s))"
    and frame: "\<And>i q s j. j < length (lots s) \<Longrightarrow> j \<noteq> i \<Longrightarrow> lots (step i q s) ! j = lots s ! j"
    and whole: "\<And>i q s ov. i < length (lots s) \<Longrightarrow> OpenQty (lots s ! i) = Fin ov \<Longrightarrow> 0 < ov
                  \<Longrightarrow> ov \<le> q \<Longrightarrow> W (lots s ! i) (lots (step i (Fin q) s) ! i)"
    and "distinct idxs"
    and "\<forall>j\<in>set idxs. j < length (lots st) \<and> jgt0 (OpenQty (lots st ! j)) \<and>
               finite_num (OpenQty (lots st ! j))"
    and "totalOpen (lots st) idxs \<le> q"
  shows "\<forall>i\<in>set idxs. W (lots st ! i) (lots (fifoLoop step idxs (Fin q) st) ! i)"
  using assms(4-6)
proof (induction idxs arbitrary: st q)
  case Nil
  show ?case by simp
next
  case (Cons i rest)
  let ?st1 = "step i (Fin q) st"
  from fifoLoop_covered_step[where step = step, OF frame Cons.prems(1,2,3)]
  obtain ov where ov: "OpenQty (lots st ! i) = Fin ov" "0 < ov" "ov \<le> q"
    and unf: "fifoLoop step (i # rest) (Fin q) st = fifoLoop step rest (Fin (q - ov)) ?st1"
    and tot: "totalOpen (lots ?st1) rest \<le> q - ov"
    and same: "\<forall>j\<in>set rest. OpenQty (lots ?st1 ! j) = OpenQty (lots st ! j)"
    by blast
  let ?st' = "fifoLoop step rest (Fin (q - ov)) ?st1"
  have i: "i < length (lots st)" "i \<notin> set rest" using Cons.prems(1,2) by simp_all
  have i1: "i < length (lots ?st1)" using i(1) len[of st i "Fin q"] by simp
  have ok1: "\<forall>j\<in>set rest. j < length (lots ?st1) \<and> jgt0 (OpenQty (lots ?st1 ! j)) \<and>
               finite_num (OpenQty (lots ?st1 ! j))"
  proof
    fix j assume j: "j \<in> set rest"
    then have "j < length (lots st)" using Cons.prems(2) by simp
    then have "j < length (lots ?st1)" using len[of st i "Fin q"] by simp
    then show "j < length (lots ?st1) \<and> jgt0 (OpenQty (lots ?st1 ! j)) \<and>
               finite_num (OpenQty (lots ?st1 ! j))"
      using same j Cons.prems(2) by simp
  qed
  have ih: "\<forall>j\<in>set rest. W (lots ?st1 ! j) (lots ?st' ! j)"
    using Cons.prems(1) ok1 tot by (intro Cons.IH) simp_all
  have "lots ?st' ! i = lots ?st1 ! i"
    using len frame i1 i(2) by (rule fifoLoop_frame)
  then have head: "W (lots st ! i) (lots ?st' ! i)"
    using whole[OF i(1) ov] by simp
  have tail: "W (lots st ! j) (lots ?st' ! j)" if j: "j \<in> set rest" for j
  proof -
    have "j < length (lots st)" "j \<noteq> i" using j Cons.prems(1,2) by auto
    then have eq: "lots ?st1 ! j = lots st ! j" by (rule frame)
    from ih j have "W (lots ?st1 ! j) (lots ?st' ! j)" by blast
    then show ?thesis unfolding eq .
  qed
  show ?case unfolding unf using head tail by simp
qed

lemma sellStep_minDep:
  assumes "jmin (OpenQty (lots s ! i)) q = jmin (OpenQty (lots s ! i)) q'"
  shows "sellStep d a p f i q s = sellStep d a p f i q' s"
  using assms by (simp add: sellStep_def Let_def)

lemma sellStep_length: "length (lots (sellStep d a p f i q s)) = length (lots s)"
  by (simp add: sellStep_def Let_def)

lemma sellStep_frame:
  assumes "j < length (lots s)" "j \<noteq> i"
  shows "lots (sellStep d a p f i q s) ! j = lots s ! j"
  using assms by (simp add: sellStep_def Let_def)

lemma sellStep_whole:
  assumes "i < length (lots s)" "OpenQty (lots s ! i) = Fin ov" "0 < ov" "ov \<le> q"
  shows "OpenQty (lots (sellStep d a p f i (Fin q) s) ! i) = Fin 0"
  using assms by (simp add: sellStep_def Let_def jsub_Fin min_def)

lemma sellStep_quantity:
  "map c_Quantity (consumes (sellStep d a p f i q s)) =
     map c_Quantity (consumes s) @ [jmin (OpenQty (lots s ! i)) q]"
  by (simp add: sellStep_def Let_def)

lemma sellStep_noQuantity: "sellStep (d\<lparr>d_Quantity := c\<rparr>) = sellStep d"
  by (intro ext) (simp add: sellStep_def Let_def)

lemma giftStep_minDep:
  assumes "jmin (OpenQty (lots s ! i)) q = jmin (OpenQty (lots s ! i)) q'"
  shows "giftStep d a i q s = giftStep d a i q' s"
  using assms by (simp add: giftStep_def Let_def)

lemma giftStep_whole:
  assumes "i < length (lots s)" "OpenQty (lots s ! i) = Fin ov" "0 < ov" "ov \<le> q"
  shows "OpenQty (lots (giftStep d a i (Fin q) s) ! i) = Fin 0"
  using assms by (simp add: giftStep_def Let_def jsub_Fin min_def)

lemma giftStep_noQuantity: "giftStep (d\<lparr>d_Quantity := c\<rparr>) = giftStep d"
  by (intro ext) (simp add: giftStep_def Let_def)

lemma transferStep_minDep:
  assumes "jmin (OpenQty (lots s ! i)) q = jmin (OpenQty (lots s ! i)) q'"
  shows "transferStep d a i q s = transferStep d a i q' s"
  using assms by (simp add: transferStep_def Let_def)

lemma transferStep_length: "length (lots s) \<le> length (lots (transferStep d a i q s))"
  by (simp add: transferStep_def Let_def)

lemma transferStep_frame:
  assumes "j < length (lots s)" "j \<noteq> i"
  shows "lots (transferStep d a i q s) ! j = lots s ! j"
  using assms by (simp add: transferStep_def Let_def nth_append)

lemma transferStep_whole:
  assumes "i < length (lots s)" "OpenQty (lots s ! i) = Fin ov" "0 < ov" "ov \<le> q"
  shows "lots (transferStep d a i (Fin q) s) ! i = movedWhole d (lots s ! i)"
  using assms by (simp add: transferStep_def movedWhole_def Let_def min_def)

lemma transferStep_noQuantity: "transferStep (d\<lparr>d_Quantity := c\<rparr>) = transferStep d"
  by (intro ext) (simp add: transferStep_def movedWhole_def Let_def)

lemma sellLoop_quantities:
  assumes "distinct idxs"
    and "\<forall>j\<in>set idxs. j < length (lots st) \<and> jgt0 (OpenQty (lots st ! j)) \<and>
               finite_num (OpenQty (lots st ! j))"
    and "totalOpen (lots st) idxs \<le> q"
  shows "map c_Quantity (consumes (fifoLoop (sellStep d a p f) idxs (Fin q) st)) =
           map c_Quantity (consumes st) @ map (\<lambda>i. OpenQty (lots st ! i)) idxs"
  using assms
proof (induction idxs arbitrary: st q)
  case Nil
  show ?case by simp
next
  case (Cons i rest)
  let ?st1 = "sellStep d a p f i (Fin q) st"
  from fifoLoop_covered_step[where step = "sellStep d a p f", OF sellStep_frame Cons.prems]
  obtain ov where ov: "OpenQty (lots st ! i) = Fin ov" "0 < ov" "ov \<le> q"
    and unf: "fifoLoop (sellStep d a p f) (i # rest) (Fin q) st =
                fifoLoop (sellStep d a p f) rest (Fin (q - ov)) ?st1"
    and tot: "totalOpen (lots ?st1) rest \<le> q - ov"
    and same: "\<forall>j\<in>set rest. OpenQty (lots ?st1 ! j) = OpenQty (lots st ! j)"
    by blast
  have ok1: "\<forall>j\<in>set rest. j < length (lots ?st1) \<and> jgt0 (OpenQty (lots ?st1 ! j)) \<and>
               finite_num (OpenQty (lots ?st1 ! j))"
    using same Cons.prems(2) by (simp add: sellStep_length)
  have dist: "distinct rest" using Cons.prems(1) by simp
  have "map c_Quantity (consumes (fifoLoop (sellStep d a p f) rest (Fin (q - ov)) ?st1)) =
          map c_Quantity (consumes ?st1) @ map (\<lambda>i. OpenQty (lots ?st1 ! i)) rest"
    using dist ok1 tot by (rule Cons.IH)
  also have "map (\<lambda>i. OpenQty (lots ?st1 ! i)) rest = map (\<lambda>i. OpenQty (lots st ! i)) rest"
    by (rule map_cong[OF refl]) (use same in simp)
  also have "map c_Quantity (consumes ?st1) = map c_Quantity (consumes st) @ [Fin ov]"
    using ov by (simp add: sellStep_quantity min_def)
  finally show ?case unfolding unf using ov(1) by simp
qed

lemma fifoOf_ok:
  assumes "\<forall>i\<in>set (fifoOf e st). finite_num (OpenQty (lots st ! i))"
  shows "\<forall>j\<in>set (fifoOf e st). j < length (lots st) \<and> jgt0 (OpenQty (lots st ! j)) \<and>
               finite_num (OpenQty (lots st ! j))"
  using assms by (auto simp: fifoOf_def openLots_set isOpenFor_def)

lemma fifoOf_distinct: "distinct (fifoOf e st)"
  by (simp add: fifoOf_def openLots_distinct)

lemma withQuantity_simps:
  "Type (withQuantity e c) = Type e"
  "d_SecurityId (Data (withQuantity e c)) = d_SecurityId (Data e)"
  "d_Quantity (Data (withQuantity e c)) = c"
  "d_Price (Data (withQuantity e c)) = d_Price (Data e)"
  "d_FXRateToINR (Data (withQuantity e c)) = d_FXRateToINR (Data e)"
  "fifoOf (withQuantity e c) st = fifoOf e st"
  "Data (withQuantity e c) = (Data e)\<lparr>d_Quantity := c\<rparr>"
  by (simp_all add: withQuantity_def fifoOf_def sourceOwner_def)

lemma processEvent_SELL:
  assumes "Type e = SELL" "secs (d_SecurityId (Data e)) = Some s"
  shows "processEvent secs st e =
    Inr (fifoLoop (sellStep (Data e) (s_AssetId s) (Number (d_Price (Data e)))
                     (Number (d_FXRateToINR (Data e))))
           (fifoOf e st) (Number (d_Quantity (Data e))) st)"
  using assms
  by (simp add: processEvent_def applySELL_def assetIdOf_def sellLoop_fifoLoop fifoOf_def
      sourceOwner_def Let_def)

lemma processEvent_GIFT:
  assumes "Type e = GIFT" "secs (d_SecurityId (Data e)) = Some s"
  shows "processEvent secs st e =
    Inr (fifoLoop (giftStep (Data e) (s_AssetId s)) (fifoOf e st)
           (Number (d_Quantity (Data e))) st)"
  using assms
  by (simp add: processEvent_def applyGIFT_def assetIdOf_def giftLoop_fifoLoop fifoOf_def
      sourceOwner_def Let_def)

lemma processEvent_TRANSFER:
  assumes "Type e = TRANSFER" "secs (d_SecurityId (Data e)) = Some s"
  shows "processEvent secs st e =
    Inr (fifoLoop (transferStep (Data e) (s_AssetId s)) (fifoOf e st)
           (Number (d_Quantity (Data e))) st)"
  using assms
  by (simp add: processEvent_def applyTRANSFER_def assetIdOf_def transferLoop_fifoLoop fifoOf_def
      sourceOwner_def Let_def)

text \<open>
  Claim C7: a SELL, GIFT or TRANSFER that requests more than the total open quantity of
  the matching lots completes without an error; the matching open lots are consumed in
  FIFO order until they run out, and the unfilled remainder is dropped without a record.
  Here: the event returns a state; that state is the one the same event returns when it
  requests exactly the open total, so nothing in it records the shortfall; every lot of the
  queue is consumed whole (open quantity 0 after a SELL or GIFT, moved in place by a
  TRANSFER); and a SELL appends one consumption record per lot of the queue, in queue
  order, each for the lot's whole open quantity. The queue is ordered by acquisition date
  (\<open>openLots_fifo\<close>). The open quantities of the queue are taken to be finite.
\<close>

theorem shortfall_silently_dropped:
  assumes ty: "Type e = SELL \<or> Type e = GIFT \<or> Type e = TRANSFER"
    and sec: "secs (d_SecurityId (Data e)) = Some s"
    and fin: "\<forall>i\<in>set (fifoOf e st). finite_num (OpenQty (lots st ! i))"
    and q: "d_Quantity (Data e) = Numeric q"
    and short: "totalOpen (lots st) (fifoOf e st) < q"
  shows "\<exists>st'. processEvent secs st e = Inr st' \<and>
     processEvent secs st (withQuantity e (Numeric (totalOpen (lots st) (fifoOf e st)))) = Inr st' \<and>
     (\<forall>i\<in>set (fifoOf e st).
        if Type e = TRANSFER then lots st' ! i = movedWhole (Data e) (lots st ! i)
        else OpenQty (lots st' ! i) = Fin 0) \<and>
     (if Type e = SELL
      then map c_Quantity (consumes st') =
             map c_Quantity (consumes st) @ map (\<lambda>i. OpenQty (lots st ! i)) (fifoOf e st)
      else consumes st' = consumes st)"
proof -
  let ?T = "totalOpen (lots st) (fifoOf e st)"
  let ?e' = "withQuantity e (Numeric ?T)"
  note ok = fifoOf_ok[OF fin]
  note dist = fifoOf_distinct[of e st]
  have le: "?T \<le> q" using short by simp
  have sec': "secs (d_SecurityId (Data ?e')) = Some s"
    using sec by (simp add: withQuantity_simps)
  from ty consider (sell) "Type e = SELL" | (gift) "Type e = GIFT" | (transfer) "Type e = TRANSFER"
    by blast
  then show ?thesis
  proof cases
    case sell
    let ?step = "sellStep (Data e) (s_AssetId s) (Number (d_Price (Data e)))
                     (Number (d_FXRateToINR (Data e)))"
    let ?st' = "fifoLoop ?step (fifoOf e st) (Fin q) st"
    have run: "processEvent secs st e = Inr ?st'"
      using processEvent_SELL[where secs = secs and st = st, OF sell sec] q by simp
    have ty': "Type ?e' = SELL" using sell by (simp add: withQuantity_simps)
    have "processEvent secs st ?e' = Inr (fifoLoop ?step (fifoOf e st) (Fin ?T) st)"
      using processEvent_SELL[where secs = secs and st = st, OF ty' sec']
      by (simp add: withQuantity_simps sellStep_noQuantity)
    also have "fifoLoop ?step (fifoOf e st) (Fin ?T) st = ?st'"
      by (rule fifoLoop_excess[OF sellStep_minDep _ sellStep_frame dist ok _ le])
         (simp_all add: sellStep_length)
    finally have run': "processEvent secs st ?e' = Inr ?st'" .
    have whole: "\<forall>i\<in>set (fifoOf e st). OpenQty (lots ?st' ! i) = Fin 0"
      by (rule fifoLoop_whole[where W = "\<lambda>l l'. OpenQty l' = Fin 0", OF _ sellStep_frame _ dist ok le])
         (simp_all add: sellStep_length sellStep_whole)
    have recs: "map c_Quantity (consumes ?st') =
             map c_Quantity (consumes st) @ map (\<lambda>i. OpenQty (lots st ! i)) (fifoOf e st)"
      using dist ok le by (rule sellLoop_quantities)
    show ?thesis
      using run run' whole recs sell by (intro exI[of _ ?st']) simp
  next
    case gift
    let ?step = "giftStep (Data e) (s_AssetId s)"
    let ?st' = "fifoLoop ?step (fifoOf e st) (Fin q) st"
    have run: "processEvent secs st e = Inr ?st'"
      using processEvent_GIFT[where secs = secs and st = st, OF gift sec] q by simp
    have ty': "Type ?e' = GIFT" using gift by (simp add: withQuantity_simps)
    have "processEvent secs st ?e' = Inr (fifoLoop ?step (fifoOf e st) (Fin ?T) st)"
      using processEvent_GIFT[where secs = secs and st = st, OF ty' sec']
      by (simp add: withQuantity_simps giftStep_noQuantity)
    also have "fifoLoop ?step (fifoOf e st) (Fin ?T) st = ?st'"
      by (rule fifoLoop_excess[OF giftStep_minDep _ giftStep_frame dist ok _ le])
         (simp_all add: giftStep_length)
    finally have run': "processEvent secs st ?e' = Inr ?st'" .
    have whole: "\<forall>i\<in>set (fifoOf e st). OpenQty (lots ?st' ! i) = Fin 0"
      by (rule fifoLoop_whole[where W = "\<lambda>l l'. OpenQty l' = Fin 0", OF _ giftStep_frame _ dist ok le])
         (simp_all add: giftStep_length giftStep_whole)
    have cons: "consumes (fifoLoop ?step idxs qty st0) = consumes st0" for idxs qty st0
      by (induction idxs arbitrary: qty st0) (simp_all add: giftStep_def Let_def)
    show ?thesis
      using run run' whole cons gift by (intro exI[of _ ?st']) simp
  next
    case transfer
    let ?step = "transferStep (Data e) (s_AssetId s)"
    let ?st' = "fifoLoop ?step (fifoOf e st) (Fin q) st"
    have run: "processEvent secs st e = Inr ?st'"
      using processEvent_TRANSFER[where secs = secs and st = st, OF transfer sec] q by simp
    have ty': "Type ?e' = TRANSFER" using transfer by (simp add: withQuantity_simps)
    have "processEvent secs st ?e' = Inr (fifoLoop ?step (fifoOf e st) (Fin ?T) st)"
      using processEvent_TRANSFER[where secs = secs and st = st, OF ty' sec']
      by (simp add: withQuantity_simps transferStep_noQuantity)
    also have "fifoLoop ?step (fifoOf e st) (Fin ?T) st = ?st'"
      by (rule fifoLoop_excess[OF transferStep_minDep _ transferStep_frame dist ok _ le])
         (simp_all add: transferStep_length)
    finally have run': "processEvent secs st ?e' = Inr ?st'" .
    have whole: "\<forall>i\<in>set (fifoOf e st). lots ?st' ! i = movedWhole (Data e) (lots st ! i)"
      by (rule fifoLoop_whole[where W = "\<lambda>l l'. l' = movedWhole (Data e) l",
            OF _ transferStep_frame _ dist ok le])
         (simp_all add: transferStep_length transferStep_whole)
    have cons: "consumes (fifoLoop ?step idxs qty st0) = consumes st0" for idxs qty st0
      by (induction idxs arbitrary: qty st0) (simp_all add: transferStep_def Let_def)
    show ?thesis
      using run run' whole cons transfer by (intro exI[of _ ?st']) simp
  qed
qed

theorem shortfall_silently_dropped_witness:
  "\<exists>st'. processEvent (mkSecs exSecurities) c8_state c7_sell = Inr st' \<and>
         processEvent (mkSecs exSecurities) c8_state (withQuantity c7_sell (Numeric 150)) = Inr st' \<and>
         OpenQty (lots st' ! 0) = Fin 0 \<and> OpenQty (lots st' ! 1) = Fin 0 \<and>
         map c_Quantity (consumes st') = [Fin 100, Fin 50]"
proof -
  have ev: "Type c7_sell = SELL" "d_SecurityId (Data c7_sell) = ''X''"
    "d_Quantity (Data c7_sell) = Numeric 200" "sourceOwner c7_sell = ''A''"
    by (simp_all add: c7_sell_def tradeEvent_def tradeRow_def row0_def sourceOwner_def)
  have ty: "Type c7_sell = SELL \<or> Type c7_sell = GIFT \<or> Type c7_sell = TRANSFER"
    using ev(1) by simp
  have sec: "mkSecs exSecurities (d_SecurityId (Data c7_sell)) =
      Some \<lparr>s_SecurityId = ''X'', s_AssetId = ''AX''\<rparr>"
    unfolding ev by (simp add: mkSecs_def exSecurities_def)
  have fifo: "fifoOf c7_sell c8_state = [Suc 0, 0]"
    unfolding fifoOf_def ev by (rule c8_fifo)
  have qty: "OpenQty (lots c8_state ! 0) = Fin 50" "OpenQty (lots c8_state ! Suc 0) = Fin 100"
    "consumes c8_state = []"
    by (simp_all add: c8_state_def exState_def exLot_def)
  have fin: "\<forall>i\<in>set (fifoOf c7_sell c8_state). finite_num (OpenQty (lots c8_state ! i))"
    unfolding fifo by (simp add: qty)
  have total: "totalOpen (lots c8_state) (fifoOf c7_sell c8_state) = 150"
    unfolding fifo by (simp add: totalOpen_def openQtyOf_def qty)
  have total2: "totalOpen (lots c8_state) [Suc 0, 0] = 150"
    using total unfolding fifo .
  have short: "totalOpen (lots c8_state) (fifoOf c7_sell c8_state) < 200"
    unfolding total by simp
  from shortfall_silently_dropped[where e = c7_sell and secs = "mkSecs exSecurities"
      and st = c8_state, OF ty sec fin ev(3) short]
  obtain st' where run: "processEvent (mkSecs exSecurities) c8_state c7_sell = Inr st'"
    and run': "processEvent (mkSecs exSecurities) c8_state (withQuantity c7_sell (Numeric 150)) = Inr st'"
    and whole: "\<forall>i\<in>set [Suc 0, 0].
        if Type c7_sell = TRANSFER then lots st' ! i = movedWhole (Data c7_sell) (lots c8_state ! i)
        else OpenQty (lots st' ! i) = Fin 0"
    and recs: "if Type c7_sell = SELL
      then map c_Quantity (consumes st') =
             map c_Quantity (consumes c8_state) @ map (\<lambda>i. OpenQty (lots c8_state ! i)) [Suc 0, 0]
      else consumes st' = consumes c8_state"
    unfolding fifo total2 by blast
  show ?thesis
    using run run' whole recs by (intro exI[of _ st']) (simp add: ev qty)
qed

subsection \<open>Open quantities stay non-negative on well-formed input\<close>


































end
